theory Spec2Isabelle
  imports Main "HOL-Library.Word"
begin

unbundle bit_operations_syntax

section \<open>Social battery firmware (main.c): data model\<close>

text \<open>
  The firmware keeps its state in global variables of fixed width. They are modelled
  as machine words; arrays are lists whose length is the declared array size.
\<close>

type_synonym u8 = "8 word"
type_synonym u16 = "16 word"
type_synonym u32 = "32 word"

text \<open>
  An access to an array outside its declared bounds is undefined behaviour in C.
  The model makes it a result of its own: the index that was out of bounds.
\<close>

datatype error = OutOfBounds nat

text \<open>\<open>buf[i]\<close> for an array \<open>buf\<close> of \<open>length buf\<close> entries.\<close>

definition read_at :: "u8 list \<Rightarrow> nat \<Rightarrow> error + u8" where
  "read_at buf i = (if i < length buf then Inr (buf ! i) else Inl (OutOfBounds i))"

section \<open>Addressable LEDs: \<open>write_addressable_leds\<close>\<close>

text \<open>
  The serializer is compiled without optimisation and consists of writes to the
  I2C control register (event interrupt off and on), writes to the set/reset register
  of pin PC6, and \<open>nop\<close> instructions. Its observable behaviour is the sequence of
  these, in program order.
\<close>

datatype pin_event = Nop | PinHigh | PinLow | IrqDisable | IrqEnable

text \<open>The branch \<open>// Send 1\<close>: 2 nops, pin high, 36 nops, pin low.\<close>

definition send_one :: "pin_event list" where
  "send_one = [Nop, Nop, PinHigh] @ replicate 36 Nop @ [PinLow]"

text \<open>The branch \<open>// Send 0\<close>: pin high, 14 nops, pin low, 20 nops.\<close>

definition send_zero :: "pin_event list" where
  "send_zero = [PinHigh] @ replicate 14 Nop @ [PinLow] @ replicate 20 Nop"

text \<open>The test \<open>(data[pos_byte] >> i) & 1\<close>.\<close>

definition bit_set :: "u8 \<Rightarrow> nat \<Rightarrow> bool" where
  "bit_set b i = (drop_bit i b AND 1 \<noteq> 0)"

definition send_bit :: "u8 \<Rightarrow> nat \<Rightarrow> pin_event list" where
  "send_bit b i = (if bit_set b i then send_one else send_zero)"

text \<open>The inner loop \<open>for (int i = 7; i >= 0; i--)\<close>.\<close>

definition send_byte :: "u8 \<Rightarrow> pin_event list" where
  "send_byte b = concat (map (send_bit b) [7, 6, 5, 4, 3, 2, 1, 0])"

text \<open>
  The outer loop over \<open>pos_byte\<close>. The pointer \<open>data\<close> is an array together with the
  index it points at, so \<open>data[pos_byte]\<close> is the array's entry \<open>base + pos_byte\<close>.
\<close>

fun send_bytes :: "u8 list \<Rightarrow> nat \<Rightarrow> nat list \<Rightarrow> error + pin_event list" where
  "send_bytes buf base [] = Inr []"
| "send_bytes buf base (p # ps) =
     (case read_at buf (base + p) of
        Inl e \<Rightarrow> Inl e
      | Inr b \<Rightarrow>
          (case send_bytes buf base ps of
             Inl e \<Rightarrow> Inl e
           | Inr evs \<Rightarrow> Inr (send_byte b @ evs)))"

definition write_addressable_leds :: "u8 list \<Rightarrow> nat \<Rightarrow> u8 \<Rightarrow> error + pin_event list" where
  "write_addressable_leds buf base len =
     (case send_bytes buf base [0..<unat len] of
        Inl e \<Rightarrow> Inl e
      | Inr evs \<Rightarrow> Inr ([IrqDisable] @ evs @ [IrqEnable]))"

text \<open>
  What the LED chain measures: for every pulse, the number of nops executed between
  the rising and the falling edge of the pin.
\<close>

fun high_scan :: "nat option \<Rightarrow> pin_event list \<Rightarrow> nat list" where
  "high_scan st [] = []"
| "high_scan st (PinHigh # es) = high_scan (Some 0) es"
| "high_scan (Some n) (Nop # es) = high_scan (Some (Suc n)) es"
| "high_scan (Some n) (PinLow # es) = n # high_scan None es"
| "high_scan st (e # es) = high_scan st es"

definition high_durations :: "pin_event list \<Rightarrow> nat list" where
  "high_durations es = high_scan None es"

text \<open>The two classes of pulse: the high time of a 1 and of a 0, in nops.\<close>

definition long_pulse :: nat where
  "long_pulse = 36"

definition short_pulse :: nat where
  "short_pulse = 14"

definition bit_pulses :: "u8 \<Rightarrow> nat list" where
  "bit_pulses b = map (\<lambda>i. if bit b i then long_pulse else short_pulse) [7, 6, 5, 4, 3, 2, 1, 0]"

section \<open>Global state\<close>

text \<open>
  The global variables of main.c, together with the three locals of \<open>main\<close> that live
  across iterations of its loop (\<open>hue\<close>, \<open>baseline\<close>, \<open>prev_button\<close>).
  \<open>i2c_registers\<close> is declared with 35 entries and \<open>led_effect_data\<close> with 15.
  In \<open>led_effect_data\<close> and in the LED registers the bytes of LED \<open>i\<close> are
  green at \<open>3 * i\<close>, red at \<open>3 * i + 1\<close> and blue at \<open>3 * i + 2\<close>.
\<close>

record fw_state =
  i2c_registers :: "u8 list"
  led_effect_data :: "u8 list"
  social_level :: u8
  system_mode :: u8
  button_enabled :: bool
  rainbow_speed :: u8
  knightrider_speed :: u8
  knightrider_led :: u8
  knightrider_value :: u16
  knightrider_direction :: bool
  hue :: u8
  baseline :: "u32 list"
  prev_button :: bool

text \<open>The initialisers of the globals and of the locals of \<open>main\<close>.\<close>

definition initial_state :: fw_state where
  "initial_state =
     \<lparr> i2c_registers = replicate 35 0,
       led_effect_data = replicate 15 0,
       social_level = 0,
       system_mode = 0,
       button_enabled = False,
       rainbow_speed = 15,
       knightrider_speed = 0xFF - 10,
       knightrider_led = 0,
       knightrider_value = 0,
       knightrider_direction = False,
       hue = 0,
       baseline = replicate 5 0,
       prev_button = False \<rparr>"

section \<open>The scanner: \<open>knightrider_step\<close>\<close>

text \<open>
  The first loop, over the indices 0 to 14, which are all the entries of the
  buffer: every byte loses 10, stopping at 0.
\<close>

definition decay_byte :: "u8 \<Rightarrow> u8" where
  "decay_byte b = (if b > 10 then b - 10 else 0)"

definition decay_leds :: "u8 list \<Rightarrow> u8 list" where
  "decay_leds d = map decay_byte (take 15 d) @ drop 15 d"

text \<open>
  The accumulator and the head. \<open>knightrider_value > (0xFF - knightrider_speed)\<close> is
  compared after integer promotion, so nothing wraps in it; \<open>knightrider_led++\<close> and
  \<open>knightrider_led--\<close> are 8-bit, \<open>knightrider_value++\<close> is 16-bit.
\<close>

definition move_head :: "fw_state \<Rightarrow> fw_state" where
  "move_head s =
     (if unat (knightrider_value s) > 255 - unat (knightrider_speed s) then
        (if \<not> knightrider_direction s then
           (let l = knightrider_led s + 1 in
            s\<lparr>knightrider_value := 0, knightrider_led := l,
              knightrider_direction := (if l \<ge> 4 then True else knightrider_direction s)\<rparr>)
         else
           (let l = knightrider_led s - 1 in
            s\<lparr>knightrider_value := 0, knightrider_led := l,
              knightrider_direction := (if l = 0 then False else knightrider_direction s)\<rparr>))
      else s\<lparr>knightrider_value := knightrider_value s + 1\<rparr>)"

text \<open>
  The ramp of the head LED's channel: \<open>+= 50\<close> on an 8-bit value below 215, else 255.
  The index \<open>(knightrider_led * 3) + color\<close> is computed in \<open>int\<close>.
\<close>

definition ramp_byte :: "u8 \<Rightarrow> u8" where
  "ramp_byte b = (if b < 215 then b + 50 else 255)"

definition ramp_head :: "u8 \<Rightarrow> fw_state \<Rightarrow> error + fw_state" where
  "ramp_head color s =
     (let idx = unat (knightrider_led s) * 3 + unat color in
      case read_at (led_effect_data s) idx of
        Inl e \<Rightarrow> Inl e
      | Inr old \<Rightarrow> Inr (s\<lparr>led_effect_data := (led_effect_data s)[idx := ramp_byte old]\<rparr>))"

definition knightrider_step :: "u8 \<Rightarrow> fw_state \<Rightarrow> error + fw_state" where
  "knightrider_step color s =
     ramp_head color (move_head (s\<lparr>led_effect_data := decay_leds (led_effect_data s)\<rparr>))"

text \<open>
  A sequence of scanner steps. Before each step the host may have written the
  scanner speed register; each entry is that speed and the colour of the step.
\<close>

fun knightrider_run :: "fw_state \<Rightarrow> (u8 \<times> u8) list \<Rightarrow> error + fw_state" where
  "knightrider_run s [] = Inr s"
| "knightrider_run s ((speed, color) # rest) =
     (case knightrider_step color (s\<lparr>knightrider_speed := speed\<rparr>) of
        Inl e \<Rightarrow> Inl e
      | Inr s' \<Rightarrow> knightrider_run s' rest)"

section \<open>One period of the main loop\<close>

text \<open>
  What one period reads from the hardware: the five raw touch counts that
  \<open>read_touch\<close> stores, the level of the button pin (\<open>funDigitalRead(PIN_BUTTON)\<close>,
  low when pressed) and the value of \<open>read_other_inputs()\<close>.
\<close>

record tick_inputs =
  raw_touch_value :: "u32 list"
  button_pin :: bool
  other_inputs :: u8

subsection \<open>Touch level\<close>

text \<open>
  \<open>touch_value[i] = raw_touch_value[i] - baseline[i]\<close>: an unsigned 32-bit
  subtraction, stored in an \<open>int32_t\<close>, so it is read as two's complement.
\<close>

definition touch_delta :: "u32 list \<Rightarrow> u32 list \<Rightarrow> nat \<Rightarrow> u32" where
  "touch_delta raw base i = raw ! i - base ! i"

definition touch_values :: "u32 list \<Rightarrow> u32 list \<Rightarrow> u32 list" where
  "touch_values raw base = map (touch_delta raw base) [0..<5]"

text \<open>The loop body's test \<open>touch_value[i] > 1900\<close>, a signed comparison.\<close>

definition exceeds_threshold :: "u32 list \<Rightarrow> u32 list \<Rightarrow> nat \<Rightarrow> bool" where
  "exceeds_threshold raw base i = (1900 <s touch_delta raw base i)"

fun touch_loop :: "u32 list \<Rightarrow> u32 list \<Rightarrow> nat list \<Rightarrow> u8 \<Rightarrow> u8" where
  "touch_loop raw base [] level = level"
| "touch_loop raw base (i # rest) level =
     touch_loop raw base rest (if exceeds_threshold raw base i then of_nat i else level)"

definition update_social_level :: "u32 list \<Rightarrow> u32 list \<Rightarrow> u8 \<Rightarrow> u8" where
  "update_social_level raw base level = touch_loop raw base [0..<5] level"

subsection \<open>Button\<close>

text \<open>
  \<open>system_mode++\<close> is an 8-bit increment; \<open>button\<close> is the negated pin level.
  \<open>prev_button = button\<close> follows at once.
\<close>

definition next_mode :: "u8 \<Rightarrow> u8" where
  "next_mode m = (if m + 1 > 7 then 1 else m + 1)"

definition button_step :: "bool \<Rightarrow> fw_state \<Rightarrow> fw_state" where
  "button_step button s =
     (if button \<and> \<not> prev_button s \<and> button_enabled s
      then s\<lparr>system_mode := next_mode (system_mode s), prev_button := button\<rparr>
      else s\<lparr>prev_button := button\<rparr>)"

subsection \<open>Register refresh\<close>

text \<open>
  The 16-bit store \<open>*touch_i2c_reg = touch_value[i]\<close> at register \<open>6 + i * 2\<close>:
  the value is cut to 16 bits and lands low byte first.
\<close>

definition store_touch :: "u32 list \<Rightarrow> nat \<Rightarrow> u8 list \<Rightarrow> u8 list" where
  "store_touch tv i regs =
     (let h = (ucast (tv ! i) :: u16) in
      regs[6 + i * 2 := ucast h, 6 + i * 2 + 1 := ucast (drop_bit 8 h)])"

text \<open>\<open>(button & 1) | ((prev_button & 1) << 1)\<close>.\<close>

definition button_register :: "bool \<Rightarrow> bool \<Rightarrow> u8" where
  "button_register button prev = of_bool button OR push_bit 1 (of_bool prev)"

text \<open>
  The assignments between the two writes of the interrupt enable bit, in program
  order. Every index is a constant below 35, or \<open>6 + i * 2\<close> and the next for
  \<open>i < 5\<close>. \<open>FW_VERSION\<close> is 1.
\<close>

definition update_registers :: "bool \<Rightarrow> u8 \<Rightarrow> u32 list \<Rightarrow> fw_state \<Rightarrow> fw_state" where
  "update_registers button other tv s =
     s\<lparr>i2c_registers :=
        fold (store_touch tv) [0..<5]
          ((i2c_registers s)
             [0 := 1 AND 0xFF,
              1 := drop_bit 8 1 AND 0xFF,
              3 := other,
              16 := social_level s,
              17 := rainbow_speed s,
              18 := knightrider_speed s,
              19 := button_register button (prev_button s),
              20 := of_bool (button_enabled s)])\<rparr>"

subsection \<open>Effects\<close>

text \<open>Mode 1, the body of the loop over the five LEDs.\<close>

definition social_led :: "u8 \<Rightarrow> u32 list \<Rightarrow> nat \<Rightarrow> u8 list \<Rightarrow> u8 list" where
  "social_led level tv i d =
     (let d1 = (if level < of_nat i
                then d[i * 3 + 0 := 0, i * 3 + 1 := 0]
                else d[i * 3 + 0 := 50 * level, i * 3 + 1 := 0xFF - 50 * level])
      in d1[i * 3 + 2 := (if 2000 <s tv ! i then 0xFF else 0x00)])"

text \<open>
  Mode 2, the body of the loop. \<open>EHSVtoHEX\<close> comes from a header that is not part of
  main.c; it is a parameter \<open>ehsv\<close> of the model.
\<close>

definition rainbow_led :: "(u8 \<Rightarrow> u8 \<Rightarrow> u8 \<Rightarrow> u32) \<Rightarrow> u8 \<Rightarrow> u8 \<Rightarrow> nat \<Rightarrow> u8 list \<Rightarrow> u8 list" where
  "rainbow_led ehsv h speed led d =
     (let color = ehsv (h + of_nat led * speed) 240 128 in
      d[led * 3 + 0 := ucast (drop_bit 8 color AND 0xFF),
        led * 3 + 1 := ucast (drop_bit 16 color AND 0xFF),
        led * 3 + 2 := ucast (drop_bit 0 color AND 0xFF)])"

definition transgender_colors :: "u8 list" where
  "transgender_colors = [0, 0, 255, 150, 255, 174, 255, 255, 255, 150, 255, 174, 0, 0, 255]"

definition dutch_flag_colors :: "u8 list" where
  "dutch_flag_colors = [0, 255, 0, 0, 255, 0, 255, 255, 255, 0, 0, 255, 0, 0, 255]"

text \<open>
  The \<open>switch (system_mode)\<close>. Case 0 transmits 15 bytes starting at
  \<open>&i2c_registers[I2C_REG_ADDR_LED0_GREEN]\<close>, register 21; the other cases fill
  \<open>led_effect_data\<close>; a mode above 7 has no case. The result is the new state and
  what the switch itself put on the wire.
\<close>

definition render_mode ::
  "(u8 \<Rightarrow> u8 \<Rightarrow> u8 \<Rightarrow> u32) \<Rightarrow> u32 list \<Rightarrow> fw_state \<Rightarrow> error + fw_state \<times> pin_event list" where
  "render_mode ehsv tv s =
     (if system_mode s = 0 then
        (case write_addressable_leds (i2c_registers s) 21 15 of
           Inl e \<Rightarrow> Inl e
         | Inr w \<Rightarrow> Inr (s, w))
      else if system_mode s = 1 then
        Inr (s\<lparr>led_effect_data := fold (social_led (social_level s) tv) [0..<5] (led_effect_data s)\<rparr>, [])
      else if system_mode s = 2 then
        Inr (s\<lparr>led_effect_data :=
                 fold (rainbow_led ehsv (hue s) (rainbow_speed s)) [0..<5] (led_effect_data s),
               hue := hue s + 1\<rparr>, [])
      else if system_mode s = 3 then Inr (s\<lparr>led_effect_data := transgender_colors\<rparr>, [])
      else if system_mode s = 4 then Inr (s\<lparr>led_effect_data := dutch_flag_colors\<rparr>, [])
      else if system_mode s = 5 then map_sum id (\<lambda>s'. (s', [])) (knightrider_step 1 s)
      else if system_mode s = 6 then map_sum id (\<lambda>s'. (s', [])) (knightrider_step 0 s)
      else if system_mode s = 7 then map_sum id (\<lambda>s'. (s', [])) (knightrider_step 2 s)
      else Inr (s, []))"

text \<open>After the switch: \<open>if (system_mode > 0)\<close> the effect buffer is transmitted.\<close>

definition transmit_effect :: "fw_state \<Rightarrow> error + pin_event list" where
  "transmit_effect s =
     (if system_mode s > 0 then write_addressable_leds (led_effect_data s) 0 15 else Inr [])"

subsection \<open>The whole period\<close>

text \<open>The state once the registers have been refreshed, before the switch.\<close>

definition sense_and_publish :: "tick_inputs \<Rightarrow> fw_state \<Rightarrow> fw_state" where
  "sense_and_publish inp s =
     (let tv = touch_values (raw_touch_value inp) (baseline s);
          s1 = s\<lparr>social_level := update_social_level (raw_touch_value inp) (baseline s) (social_level s)\<rparr>;
          button = \<not> button_pin inp;
          s2 = button_step button s1
      in update_registers button (other_inputs inp) tv s2)"

definition tick ::
  "(u8 \<Rightarrow> u8 \<Rightarrow> u8 \<Rightarrow> u32) \<Rightarrow> tick_inputs \<Rightarrow> fw_state \<Rightarrow> error + fw_state \<times> pin_event list" where
  "tick ehsv inp s =
     (let tv = touch_values (raw_touch_value inp) (baseline s);
          s3 = sense_and_publish inp s
      in case render_mode ehsv tv s3 of
           Inl e \<Rightarrow> Inl e
         | Inr (s4, w1) \<Rightarrow>
             (case transmit_effect s4 of
                Inl e \<Rightarrow> Inl e
              | Inr w2 \<Rightarrow> Inr (s4, w1 @ w2)))"

section \<open>Start-up\<close>

text \<open>
  What \<open>main\<close> reads before its loop: the levels of SDA and SCL once the pull-downs
  are on, the level of the mode jumper pin, and the first five touch counts.
\<close>

record boot_inputs =
  sda_level :: bool
  scl_level :: bool
  mode_pin :: bool
  baseline_touch :: "u32 list"

text \<open>
  What start-up does to the outside: registering the two I2C peripherals (address and
  size of the register block), sending a frame to the LEDs, waiting.
\<close>

datatype boot_event =
  SetupI2CSlave u8 nat
| SetupSecondaryI2CSlave u8 nat
| LedFrame "pin_event list"
| Delay_Ms nat

text \<open>The body of the loop of the \<open>else\<close> branch.\<close>

definition fallback_led :: "nat \<Rightarrow> u8 list \<Rightarrow> u8 list" where
  "fallback_led i d = d[i * 3 + 0 := 0x00, i * 3 + 1 := 0xFF, i * 3 + 2 := 0x00]"

definition eeprom_size :: nat where
  "eeprom_size = 43"

definition probe_bus :: "boot_inputs \<Rightarrow> fw_state \<Rightarrow> error + fw_state \<times> boot_event list" where
  "probe_bus inp s =
     (if sda_level inp \<or> scl_level inp then
        Inr (s, [SetupI2CSlave 0x57 (length (i2c_registers s)), SetupSecondaryI2CSlave 0x50 eeprom_size])
      else
        (let d = fold fallback_led [0..<5] (led_effect_data s) in
         case write_addressable_leds d 0 15 of
           Inl e \<Rightarrow> Inl e
         | Inr w \<Rightarrow> Inr (s\<lparr>led_effect_data := d\<rparr>, [LedFrame w, Delay_Ms 100])))"

text \<open>\<open>get_mode()\<close> is the negated jumper pin, and the test is \<open>!get_mode()\<close>.\<close>

definition boot :: "boot_inputs \<Rightarrow> error + fw_state \<times> boot_event list" where
  "boot inp =
     (case probe_bus inp initial_state of
        Inl e \<Rightarrow> Inl e
      | Inr (s, evs) \<Rightarrow>
          (let s1 = s\<lparr>hue := 0, baseline := baseline_touch inp, rainbow_speed := 15\<rparr>;
               s2 = (if mode_pin inp then s1\<lparr>system_mode := 1, button_enabled := True\<rparr> else s1)
           in Inr (s2\<lparr>prev_button := False\<rparr>, evs)))"

section \<open>The write callback: \<open>onWrite\<close>\<close>

text \<open>
  After the host has written registers, the callback copies the control registers
  into the runtime variables (the pin configuration it also does is not modelled).
\<close>

definition onWrite :: "fw_state \<Rightarrow> fw_state" where
  "onWrite s =
     s\<lparr>system_mode := i2c_registers s ! 5,
       social_level := i2c_registers s ! 16,
       rainbow_speed := i2c_registers s ! 17,
       knightrider_speed := i2c_registers s ! 18,
       button_enabled := (i2c_registers s ! 20 \<noteq> 0)\<rparr>"

section \<open>The register refresh and the bus-event interrupt\<close>

text \<open>
  The bus-event handler can run between any two memory operations of the main loop,
  so for this question the refresh is taken apart into its operations, in program
  order: clearing the event interrupt enable bit of the I2C control register, the
  byte stores into \<open>i2c_registers\<close> (a 16-bit store counts as its two bytes), and
  setting the bit again.
\<close>

datatype main_op = DisableEvent | StoreByte nat u8 | EnableEvent

definition touch_stores :: "u32 list \<Rightarrow> nat \<Rightarrow> main_op list" where
  "touch_stores tv i =
     (let h = (ucast (tv ! i) :: u16) in
      [StoreByte (6 + i * 2) (ucast h), StoreByte (6 + i * 2 + 1) (ucast (drop_bit 8 h))])"

definition refresh_stores :: "bool \<Rightarrow> u8 \<Rightarrow> u32 list \<Rightarrow> fw_state \<Rightarrow> main_op list" where
  "refresh_stores button other tv s =
     [StoreByte 0 (1 AND 0xFF),
      StoreByte 1 (drop_bit 8 1 AND 0xFF),
      StoreByte 3 other,
      StoreByte 16 (social_level s),
      StoreByte 17 (rainbow_speed s),
      StoreByte 18 (knightrider_speed s),
      StoreByte 19 (button_register button (prev_button s)),
      StoreByte 20 (of_bool (button_enabled s))]
     @ concat (map (touch_stores tv) [0..<5])"

definition refresh_ops :: "bool \<Rightarrow> u8 \<Rightarrow> u32 list \<Rightarrow> fw_state \<Rightarrow> main_op list" where
  "refresh_ops button other tv s = DisableEvent # refresh_stores button other tv s @ [EnableEvent]"

text \<open>
  The machine on which main loop and handler interleave: the register file, the
  interrupt enable bit, the operations of the refresh still to be executed, how many
  of its stores have been executed, and, for every run of the handler, how many stores
  had been executed when it ran.
\<close>

record bus_machine =
  registers :: "u8 list"
  event_enabled :: bool
  todo :: "main_op list"
  stores_done :: nat
  handler_saw :: "nat list"

fun exec_op :: "main_op \<Rightarrow> bus_machine \<Rightarrow> bus_machine" where
  "exec_op DisableEvent m = m\<lparr>event_enabled := False\<rparr>"
| "exec_op EnableEvent m = m\<lparr>event_enabled := True\<rparr>"
| "exec_op (StoreByte i v) m = m\<lparr>registers := (registers m)[i := v], stores_done := Suc (stores_done m)\<rparr>"

text \<open>
  A schedule says who runs next: the main loop executes its next operation, or a bus
  event arrives for one register, a read (\<open>None\<close>) or a write of one byte.
\<close>

datatype sched = MainStep | BusEvent nat "u8 option"

text \<open>
  Modelled from the spec: the bus-event handler is the interrupt routine of
  i2c_slave.h, which is not part of main.c. It accesses a single byte of the register
  file per event, inside the block registered with it, and it runs only while the
  event interrupt is enabled; an event that arrives while the interrupt is disabled
  is not served then.
\<close>

definition handler_step :: "nat \<Rightarrow> u8 option \<Rightarrow> bus_machine \<Rightarrow> bus_machine" where
  "handler_step i w m =
     (if event_enabled m then
        m\<lparr>registers := (case w of
                          None \<Rightarrow> registers m
                        | Some v \<Rightarrow> if i < length (registers m) then (registers m)[i := v] else registers m),
          handler_saw := handler_saw m @ [stores_done m]\<rparr>
      else m)"

fun sched_step :: "sched \<Rightarrow> bus_machine \<Rightarrow> bus_machine" where
  "sched_step MainStep m =
     (case todo m of [] \<Rightarrow> m | op # rest \<Rightarrow> exec_op op (m\<lparr>todo := rest\<rparr>))"
| "sched_step (BusEvent i w) m = handler_step i w m"

definition run_sched :: "sched list \<Rightarrow> bus_machine \<Rightarrow> bus_machine" where
  "run_sched sc m = fold sched_step sc m"

text \<open>The machine when the main loop reaches the refresh, the interrupt enabled.\<close>

definition refresh_start :: "bool \<Rightarrow> u8 \<Rightarrow> u32 list \<Rightarrow> fw_state \<Rightarrow> bus_machine" where
  "refresh_start button other tv s =
     \<lparr> registers = i2c_registers s,
       event_enabled = True,
       todo = refresh_ops button other tv s,
       stores_done = 0,
       handler_saw = [] \<rparr>"

section \<open>Predicates used in the proofs\<close>

text \<open>
  The invariant of the scanner: the buffer has its 15 entries, the head is on LED 0
  to 3 while it moves forward and on LED 1 to 4 while it moves backward.
\<close>

definition scan_inv :: "fw_state \<Rightarrow> bool" where
  "scan_inv s =
     (length (led_effect_data s) = 15
      \<and> (knightrider_direction s \<longrightarrow>
            knightrider_led s = 1 \<or> knightrider_led s = 2 \<or> knightrider_led s = 3 \<or> knightrider_led s = 4)
      \<and> (\<not> knightrider_direction s \<longrightarrow>
            knightrider_led s = 0 \<or> knightrider_led s = 1 \<or> knightrider_led s = 2 \<or> knightrider_led s = 3))"

text \<open>
  Between a state and its successor, the direction turns to backward exactly when
  the head arrives at LED 4, and to forward exactly when it arrives at LED 0.
\<close>

definition flips_at_ends :: "fw_state \<Rightarrow> fw_state \<Rightarrow> bool" where
  "flips_at_ends s s' =
     (((\<not> knightrider_direction s \<and> knightrider_direction s')
         = (knightrider_led s \<noteq> 4 \<and> knightrider_led s' = 4))
      \<and> ((knightrider_direction s \<and> \<not> knightrider_direction s')
         = (knightrider_led s \<noteq> 0 \<and> knightrider_led s' = 0)))"

text \<open>The frame of the start-up fallback: for every LED green 0, red 255, blue 0.\<close>

definition fallback_colors :: "u8 list" where
  "fallback_colors = [0, 255, 0, 0, 255, 0, 0, 255, 0, 0, 255, 0, 0, 255, 0]"

text \<open>
  The invariant of the interleaving, for a refresh whose stores are \<open>S\<close>: the main
  loop has not started and the interrupt is enabled; or it is between the two writes
  of the enable bit and the interrupt is disabled; or it has finished, every store is
  done and the interrupt is enabled again. Every run of the handler so far saw none
  or all of the stores done.
\<close>

definition is_store :: "main_op \<Rightarrow> bool" where
  "is_store op = (case op of StoreByte i v \<Rightarrow> True | _ \<Rightarrow> False)"

definition refresh_inv :: "main_op list \<Rightarrow> bus_machine \<Rightarrow> bool" where
  "refresh_inv S m =
     (((todo m = DisableEvent # S @ [EnableEvent] \<and> event_enabled m \<and> stores_done m = 0)
       \<or> (stores_done m \<le> length S \<and> todo m = drop (stores_done m) S @ [EnableEvent] \<and> \<not> event_enabled m)
       \<or> (todo m = [] \<and> event_enabled m \<and> stores_done m = length S))
      \<and> (\<forall>n \<in> set (handler_saw m). n = 0 \<or> n = length S))"

section \<open>The LED serializer\<close>

lemma bit_set_iff: "bit_set b i = bit b i"
  by (simp add: bit_set_def and_one_eq bit_iff_odd_drop_bit odd_iff_mod_2_eq_one)

lemma high_scan_nops_Some: "high_scan (Some n) (replicate k Nop @ es) = high_scan (Some (n + k)) es"
  by (induction k arbitrary: n) simp_all

lemma high_scan_nops_None: "high_scan None (replicate k Nop @ es) = high_scan None es"
  by (induction k) simp_all

lemma high_scan_send_one: "high_scan None (send_one @ es) = long_pulse # high_scan None es"
  by (simp add: send_one_def long_pulse_def high_scan_nops_Some)

lemma high_scan_send_zero: "high_scan None (send_zero @ es) = short_pulse # high_scan None es"
  by (simp add: send_zero_def short_pulse_def high_scan_nops_Some high_scan_nops_None)

lemma high_scan_send_bit:
  "high_scan None (send_bit b i @ es) = (if bit b i then long_pulse else short_pulse) # high_scan None es"
  by (simp add: send_bit_def bit_set_iff high_scan_send_one high_scan_send_zero)

lemma high_scan_send_byte: "high_scan None (send_byte b @ es) = bit_pulses b @ high_scan None es"
  by (simp add: send_byte_def bit_pulses_def high_scan_send_bit)

lemma high_scan_frame:
  "high_scan None (concat (map send_byte bs) @ es) = concat (map bit_pulses bs) @ high_scan None es"
  by (induction bs) (simp_all add: high_scan_send_byte)

lemma high_durations_frame:
  "high_durations (IrqDisable # concat (map send_byte bs) @ [IrqEnable]) = concat (map bit_pulses bs)"
  by (simp add: high_durations_def high_scan_frame)

lemma send_bytes_in_bounds:
  "\<forall>p \<in> set ps. base + p < length buf \<Longrightarrow>
   send_bytes buf base ps = Inr (concat (map (\<lambda>p. send_byte (buf ! (base + p))) ps))"
  by (induction ps) (simp_all add: read_at_def)

lemma write_addressable_leds_in_bounds:
  assumes "base + unat len \<le> length buf"
  shows "write_addressable_leds buf base len =
    Inr (IrqDisable # concat (map send_byte (take (unat len) (drop base buf))) @ [IrqEnable])"
proof -
  have "\<forall>p \<in> set [0..<unat len]. base + p < length buf"
    using assms by auto
  then have "send_bytes buf base [0..<unat len] =
      Inr (concat (map (\<lambda>p. send_byte (buf ! (base + p))) [0..<unat len]))"
    by (rule send_bytes_in_bounds)
  moreover have "map (\<lambda>p. buf ! (base + p)) [0..<unat len] = take (unat len) (drop base buf)"
    using assms by (intro nth_equalityI) auto
  then have "map (\<lambda>p. send_byte (buf ! (base + p))) [0..<unat len] =
      map send_byte (take (unat len) (drop base buf))"
    by (metis (no_types, lifting) map_map o_def map_eq_conv)
  ultimately show ?thesis
    by (simp add: write_addressable_leds_def)
qed

lemma bit_pulses_A5:
  "bit_pulses 0xA5 =
     [long_pulse, short_pulse, long_pulse, short_pulse, short_pulse, long_pulse, short_pulse, long_pulse]"
  by (simp add: bit_pulses_def)

text \<open>
  C8. For every buffer (its length fits the 8-bit length parameter), the serializer
  emits one pulse per bit, the bits of each byte from bit 7 down to bit 0, and the
  high time of the pulse of a 1 (36 nops) is strictly longer than that of a 0 (14
  nops). The byte \<open>0xA5\<close> gives long, short, long, short, short, long, short, long.
\<close>

theorem led_serializer_pulses:
  "length data < 256 \<Longrightarrow>
     (\<exists>evs. write_addressable_leds data 0 (of_nat (length data)) = Inr evs
         \<and> high_durations evs = concat (map bit_pulses data))
     \<and> short_pulse < long_pulse
     \<and> (\<exists>evs. write_addressable_leds [0xA5] 0 1 = Inr evs
         \<and> high_durations evs =
             [long_pulse, short_pulse, long_pulse, short_pulse,
              short_pulse, long_pulse, short_pulse, long_pulse])"
proof -
  assume small: "length data < 256"
  then have "unat (of_nat (length data) :: u8) = length data"
    by (simp add: unat_of_nat)
  then have "\<exists>evs. write_addressable_leds data 0 (of_nat (length data)) = Inr evs
      \<and> high_durations evs = concat (map bit_pulses data)"
    by (simp add: write_addressable_leds_in_bounds high_durations_frame)
  moreover have "short_pulse < long_pulse"
    by (simp add: short_pulse_def long_pulse_def)
  moreover have "\<exists>evs. write_addressable_leds [0xA5] 0 1 = Inr evs
      \<and> high_durations evs =
          [long_pulse, short_pulse, long_pulse, short_pulse,
           short_pulse, long_pulse, short_pulse, long_pulse]"
    using high_durations_frame [of "[0xA5]"]
    by (simp add: write_addressable_leds_in_bounds bit_pulses_A5)
  ultimately show ?thesis by simp
qed

text \<open>The serializer on the two bytes \<open>0xA5, 0x0F\<close>.\<close>

theorem led_serializer_pulses_witness:
  "length [0xA5, 0x0F :: u8] < 256
   \<and> (\<exists>evs. write_addressable_leds [0xA5, 0x0F] 0 2 = Inr evs
        \<and> high_durations evs = [36, 14, 36, 14, 14, 36, 14, 36, 14, 14, 14, 14, 36, 36, 36, 36])"
  using led_serializer_pulses [of "[0xA5, 0x0F]"]
  by (simp add: bit_pulses_def long_pulse_def short_pulse_def)

section \<open>The touch level\<close>

lemma upt_5: "[0..<5] = [0, 1, 2, 3, 4]"
  by (simp add: upt_rec)

lemma less_5_cases: "(k::nat) < 5 \<longleftrightarrow> k = 0 \<or> k = 1 \<or> k = 2 \<or> k = 3 \<or> k = 4"
  by arith

lemma exceeds_threshold_iff:
  "exceeds_threshold raw base i = (1900 < sint (raw ! i - base ! i))"
  by (simp add: exceeds_threshold_def touch_delta_def word_sless_alt)

text \<open>
  C2. The loop over the channels 0 to 4 overwrites the social level with \<open>i\<close> whenever
  the difference \<open>raw[i] - baseline[i]\<close>, taken in 32 bits and read as a signed
  number, is greater than 1900. So the level after the loop is the highest channel
  whose difference is greater than 1900, and it is the level before the loop when no
  channel's difference is. This is the level with which the period goes on.
\<close>

theorem touch_level_highest_index_wins:
  assumes "length raw = 5" and "length base = 5"
  shows "(\<forall>k<5. 1900 < sint (raw ! k - base ! k)
              \<and> (\<forall>j<5. k < j \<longrightarrow> \<not> 1900 < sint (raw ! j - base ! j))
            \<longrightarrow> update_social_level raw base level = of_nat k)
       \<and> ((\<forall>i<5. \<not> 1900 < sint (raw ! i - base ! i)) \<longrightarrow> update_social_level raw base level = level)
       \<and> (raw_touch_value inp = raw \<and> baseline s = base \<and> social_level s = level
            \<longrightarrow> social_level (sense_and_publish inp s) = update_social_level raw base level)"
  by (simp add: update_social_level_def upt_5 less_5_cases exceeds_threshold_iff
      sense_and_publish_def Let_def update_registers_def button_step_def)

text \<open>
  Only channel 2 is above the threshold: the level becomes 2. Channels 1 and 3 are:
  it becomes 3. None is (a raw count of 2000 over a baseline of 500, a count of 1900
  over 0, a count below its baseline): it stays 3.
\<close>

theorem touch_level_highest_index_wins_witness:
  "update_social_level [0, 0, 2500, 0, 0] [0, 0, 500, 0, 0] 4 = 2
   \<and> update_social_level [0, 2000, 0, 4000, 0] [0, 0, 0, 0, 0] 0 = 3
   \<and> update_social_level [2000, 1900, 7, 0, 1] [500, 0, 8, 0, 0] 3 = 3"
proof -
  have a: "\<forall>k<5. 1900 < sint ([0, 0, 2500, 0, 0] ! k - [0, 0, 500, 0, 0] ! k :: u32)
        \<and> (\<forall>j<5. k < j \<longrightarrow> \<not> 1900 < sint ([0, 0, 2500, 0, 0] ! j - [0, 0, 500, 0, 0] ! j :: u32))
      \<longrightarrow> update_social_level [0, 0, 2500, 0, 0] [0, 0, 500, 0, 0] 4 = of_nat k"
    using touch_level_highest_index_wins [of "[0, 0, 2500, 0, 0]" "[0, 0, 500, 0, 0]" 4] by simp
  have "(2::nat) < 5 \<longrightarrow> 1900 < sint ([0, 0, 2500, 0, 0] ! 2 - [0, 0, 500, 0, 0] ! 2 :: u32)
        \<and> (\<forall>j<5. 2 < j \<longrightarrow> \<not> 1900 < sint ([0, 0, 2500, 0, 0] ! j - [0, 0, 500, 0, 0] ! j :: u32))
      \<longrightarrow> update_social_level [0, 0, 2500, 0, 0] [0, 0, 500, 0, 0] 4 = of_nat 2"
    using a by (rule spec)
  then have r1: "update_social_level [0, 0, 2500, 0, 0] [0, 0, 500, 0, 0] 4 = 2"
    by (simp add: less_5_cases)
  have b: "\<forall>k<5. 1900 < sint ([0, 2000, 0, 4000, 0] ! k - [0, 0, 0, 0, 0] ! k :: u32)
        \<and> (\<forall>j<5. k < j \<longrightarrow> \<not> 1900 < sint ([0, 2000, 0, 4000, 0] ! j - [0, 0, 0, 0, 0] ! j :: u32))
      \<longrightarrow> update_social_level [0, 2000, 0, 4000, 0] [0, 0, 0, 0, 0] 0 = of_nat k"
    using touch_level_highest_index_wins [of "[0, 2000, 0, 4000, 0]" "[0, 0, 0, 0, 0]" 0] by simp
  have "(3::nat) < 5 \<longrightarrow> 1900 < sint ([0, 2000, 0, 4000, 0] ! 3 - [0, 0, 0, 0, 0] ! 3 :: u32)
        \<and> (\<forall>j<5. 3 < j \<longrightarrow> \<not> 1900 < sint ([0, 2000, 0, 4000, 0] ! j - [0, 0, 0, 0, 0] ! j :: u32))
      \<longrightarrow> update_social_level [0, 2000, 0, 4000, 0] [0, 0, 0, 0, 0] 0 = of_nat 3"
    using b by (rule spec)
  then have r2: "update_social_level [0, 2000, 0, 4000, 0] [0, 0, 0, 0, 0] 0 = 3"
    by (simp add: less_5_cases)
  have r3: "update_social_level [2000, 1900, 7, 0, 1] [500, 0, 8, 0, 0] 3 = 3"
    using touch_level_highest_index_wins [of "[2000, 1900, 7, 0, 1]" "[500, 0, 8, 0, 0]" 3]
    by (simp add: less_5_cases)
  from r1 r2 r3 show ?thesis by simp
qed

section \<open>The button\<close>

lemma succ_nonzero: "(m::u8) \<noteq> 255 \<Longrightarrow> m + 1 \<noteq> 0"
proof
  assume "m \<noteq> 255" and "m + 1 = 0"
  then have "m = - 1" by (simp add: add_eq_0_iff2)
  with \<open>m \<noteq> 255\<close> show False by simp
qed

lemma unat_succ: "(m::u8) \<noteq> 255 \<Longrightarrow> unat (m + 1) = Suc (unat m)"
  using unatSuc [of m] succ_nonzero [of m] by (simp add: add.commute)

lemma next_mode_range: "m \<noteq> 255 \<Longrightarrow> 1 \<le> next_mode m \<and> next_mode m \<le> 7"
  by (simp add: next_mode_def word_le_nat_alt word_less_nat_alt unat_succ)

lemma next_mode_7: "next_mode 7 = 1"
  by (simp add: next_mode_def)

lemma next_mode_255: "next_mode 255 = 0"
  by (simp add: next_mode_def)

lemma next_mode_succ: "m < 7 \<Longrightarrow> next_mode m = m + 1"
proof -
  assume a: "m < 7"
  then have "m \<noteq> 255" by auto
  then have "unat (m + 1) = Suc (unat m)" by (rule unat_succ)
  with a show ?thesis
    by (simp add: next_mode_def word_le_nat_alt word_less_nat_alt)
qed

text \<open>
  What the button step does for the modes below 255: it changes the mode only when
  the button is pressed now, was not pressed in the previous period and button control
  is enabled, and then the new mode is in 1..7, 7 going to 1 and a mode below 7 to its
  successor.
\<close>

lemma button_mode_change:
  "(system_mode (button_step button s) \<noteq> system_mode s \<longrightarrow> button \<and> \<not> prev_button s \<and> button_enabled s)
   \<and> (button \<and> \<not> prev_button s \<and> button_enabled s \<and> system_mode s \<noteq> 255 \<longrightarrow>
        1 \<le> system_mode (button_step button s) \<and> system_mode (button_step button s) \<le> 7)
   \<and> (button \<and> \<not> prev_button s \<and> button_enabled s \<and> system_mode s = 7 \<longrightarrow>
        system_mode (button_step button s) = 1)
   \<and> (button \<and> \<not> prev_button s \<and> button_enabled s \<and> system_mode s < 7 \<longrightarrow>
        system_mode (button_step button s) = system_mode s + 1)"
  by (simp add: button_step_def next_mode_range next_mode_7 next_mode_succ)

text \<open>
  C5. The guard \<open>if (system_mode > 7) system_mode = 1\<close> is there to keep the button's
  cycle in 1..7, but it comes after the 8-bit \<open>system_mode++\<close>, and at 255 the
  increment wraps to 0, which the guard lets pass. The host writes 255 into the mode
  register and 1 into the button enable register, and the callback copies them; then
  the button, not pressed before, is pressed: the mode is 0 afterwards, outside 1..7.
\<close>

theorem button_mode_255_wraps:
  "system_mode (onWrite (initial_state\<lparr>i2c_registers := (i2c_registers initial_state)[5 := 255, 20 := 1]\<rparr>)) = 255
   \<and> \<not> prev_button (onWrite (initial_state\<lparr>i2c_registers := (i2c_registers initial_state)[5 := 255, 20 := 1]\<rparr>))
   \<and> button_enabled (onWrite (initial_state\<lparr>i2c_registers := (i2c_registers initial_state)[5 := 255, 20 := 1]\<rparr>))
   \<and> system_mode (button_step True
         (onWrite (initial_state\<lparr>i2c_registers := (i2c_registers initial_state)[5 := 255, 20 := 1]\<rparr>))) = 0"
  by (simp add: button_step_def onWrite_def initial_state_def next_mode_255)

section \<open>The scanner\<close>

lemma move_head_buffer: "led_effect_data (move_head s) = led_effect_data s"
  by (simp add: move_head_def Let_def)

lemma move_head_inv: "scan_inv s \<Longrightarrow> scan_inv (move_head s)"
  by (auto simp add: scan_inv_def move_head_def Let_def word_le_nat_alt)

lemma move_head_flips: "scan_inv s \<Longrightarrow> flips_at_ends s (move_head s)"
  by (auto simp add: scan_inv_def flips_at_ends_def move_head_def Let_def word_le_nat_alt)

lemma scan_inv_le: "scan_inv s \<Longrightarrow> knightrider_led s \<le> 4"
  by (cases "knightrider_direction s") (auto simp add: scan_inv_def word_le_nat_alt)

lemma scan_inv_unat: "scan_inv s \<Longrightarrow> unat (knightrider_led s) \<le> 4"
  by (cases "knightrider_direction s") (auto simp add: scan_inv_def)

lemma ramp_head_ok:
  assumes "scan_inv s" and "color \<le> 2"
  shows "\<exists>s'. ramp_head color s = Inr s' \<and> scan_inv s'
            \<and> knightrider_led s' = knightrider_led s
            \<and> knightrider_direction s' = knightrider_direction s"
proof -
  have "unat (knightrider_led s) \<le> 4" using assms(1) by (rule scan_inv_unat)
  moreover have "unat color \<le> 2" using assms(2) by (simp add: word_le_nat_alt)
  moreover have "length (led_effect_data s) = 15" using assms(1) by (simp add: scan_inv_def)
  ultimately have "unat (knightrider_led s) * 3 + unat color < length (led_effect_data s)"
    by arith
  then show ?thesis
    using assms(1) by (simp add: ramp_head_def read_at_def Let_def scan_inv_def)
qed

lemma decay_inv: "scan_inv s \<Longrightarrow> scan_inv (s\<lparr>led_effect_data := decay_leds (led_effect_data s)\<rparr>)"
  by (simp add: scan_inv_def decay_leds_def)

lemma speed_inv: "scan_inv s \<Longrightarrow> scan_inv (s\<lparr>knightrider_speed := speed\<rparr>)"
  by (simp add: scan_inv_def)

lemma knightrider_step_inv:
  assumes "scan_inv s" and "color \<le> 2"
  shows "\<exists>s'. knightrider_step color s = Inr s' \<and> scan_inv s' \<and> flips_at_ends s s'"
proof -
  let ?d = "s\<lparr>led_effect_data := decay_leds (led_effect_data s)\<rparr>"
  have d: "scan_inv ?d" using assms(1) by (rule decay_inv)
  then have m: "scan_inv (move_head ?d)" by (rule move_head_inv)
  from d have f: "flips_at_ends ?d (move_head ?d)" by (rule move_head_flips)
  from ramp_head_ok [OF m assms(2)] obtain s' where
    s': "ramp_head color (move_head ?d) = Inr s'" "scan_inv s'"
      "knightrider_led s' = knightrider_led (move_head ?d)"
      "knightrider_direction s' = knightrider_direction (move_head ?d)"
    by blast
  from f s'(3,4) have "flips_at_ends s s'"
    by (simp add: flips_at_ends_def)
  with s'(1,2) show ?thesis
    by (simp add: knightrider_step_def)
qed

lemma knightrider_run_inv:
  "scan_inv s \<Longrightarrow> \<forall>(speed, color) \<in> set steps. color \<le> 2 \<Longrightarrow>
   \<exists>s'. knightrider_run s steps = Inr s' \<and> scan_inv s'"
proof (induction steps arbitrary: s)
  case Nil
  then show ?case by simp
next
  case (Cons st steps)
  obtain speed color where st: "st = (speed, color)" by (cases st)
  with Cons.prems have c: "color \<le> 2" by simp
  from Cons.prems(1) have "scan_inv (s\<lparr>knightrider_speed := speed\<rparr>)" by (rule speed_inv)
  from knightrider_step_inv [OF this c] obtain s1 where
    s1: "knightrider_step color (s\<lparr>knightrider_speed := speed\<rparr>) = Inr s1" "scan_inv s1"
    by blast
  from Cons.prems(2) have "\<forall>(speed, color) \<in> set steps. color \<le> 2" by simp
  from Cons.IH [OF s1(2) this] s1(1) st show ?case by simp
qed

text \<open>
  With the fastest speed the head is on LED 4, turned backward, after 8 steps, and on
  LED 0, turned forward, after 16.
\<close>

lemma scanner_reaches_both_ends:
  "map_sum id (\<lambda>s. (knightrider_led s, knightrider_direction s))
     (knightrider_run initial_state (replicate 8 (255, 1))) = Inr (4, True)
   \<and> map_sum id (\<lambda>s. (knightrider_led s, knightrider_direction s))
     (knightrider_run initial_state (replicate 16 (255, 1))) = Inr (0, False)"
  by code_simp

text \<open>
  C3. From a state with the head on LED 0 moving forward, after any sequence of
  scanner steps, whatever speed the host has set before each step (the colours are
  the three the main loop passes, 0 to 2), no access leaves the buffer, the head is on
  an LED in 0..4, and in the next step the direction turns from forward to backward
  exactly if that step brings the head to LED 4, and from backward to forward exactly
  if it brings the head to LED 0.
\<close>

theorem scanner_position_and_flips:
  assumes "knightrider_led s0 = 0" and "\<not> knightrider_direction s0"
    and "length (led_effect_data s0) = 15"
    and "\<forall>(speed, color) \<in> set steps. color \<le> 2"
  shows "\<exists>s. knightrider_run s0 steps = Inr s \<and> knightrider_led s \<le> 4
            \<and> (\<forall>speed color. color \<le> 2 \<longrightarrow>
                 (\<exists>s'. knightrider_step color (s\<lparr>knightrider_speed := speed\<rparr>) = Inr s'
                    \<and> knightrider_led s' \<le> 4
                    \<and> ((\<not> knightrider_direction s \<and> knightrider_direction s')
                         = (knightrider_led s \<noteq> 4 \<and> knightrider_led s' = 4))
                    \<and> ((knightrider_direction s \<and> \<not> knightrider_direction s')
                         = (knightrider_led s \<noteq> 0 \<and> knightrider_led s' = 0))))"
proof -
  from assms(1-3) have "scan_inv s0" by (simp add: scan_inv_def)
  from knightrider_run_inv [OF this assms(4)] obtain s where
    s: "knightrider_run s0 steps = Inr s" "scan_inv s" by blast
  have "\<exists>s'. knightrider_step color (s\<lparr>knightrider_speed := speed\<rparr>) = Inr s'
          \<and> knightrider_led s' \<le> 4
          \<and> ((\<not> knightrider_direction s \<and> knightrider_direction s')
               = (knightrider_led s \<noteq> 4 \<and> knightrider_led s' = 4))
          \<and> ((knightrider_direction s \<and> \<not> knightrider_direction s')
               = (knightrider_led s \<noteq> 0 \<and> knightrider_led s' = 0))"
    if c: "color \<le> 2" for speed color
  proof -
    from s(2) have "scan_inv (s\<lparr>knightrider_speed := speed\<rparr>)" by (rule speed_inv)
    from knightrider_step_inv [OF this c] obtain s' where
      s': "knightrider_step color (s\<lparr>knightrider_speed := speed\<rparr>) = Inr s'" "scan_inv s'"
        "flips_at_ends (s\<lparr>knightrider_speed := speed\<rparr>) s'"
      by blast
    from s'(2) have "knightrider_led s' \<le> 4" by (rule scan_inv_le)
    with s'(1,3) show ?thesis by (simp add: flips_at_ends_def)
  qed
  with s scan_inv_le [OF s(2)] show ?thesis by blast
qed

text \<open>
  Seven steps at the fastest speed in red from the initial state, then the eighth:
  it brings the head to LED 4 and turns the direction.
\<close>

theorem scanner_position_and_flips_witness:
  "knightrider_led initial_state = 0 \<and> \<not> knightrider_direction initial_state
   \<and> length (led_effect_data initial_state) = 15
   \<and> (\<exists>s s'. knightrider_run initial_state (replicate 7 (255, 1)) = Inr s
         \<and> knightrider_led s \<le> 4
         \<and> knightrider_step 1 (s\<lparr>knightrider_speed := 255\<rparr>) = Inr s'
         \<and> knightrider_led s' \<le> 4
         \<and> ((\<not> knightrider_direction s \<and> knightrider_direction s')
              = (knightrider_led s \<noteq> 4 \<and> knightrider_led s' = 4)))"
proof -
  have a: "knightrider_led initial_state = 0" "\<not> knightrider_direction initial_state"
    "length (led_effect_data initial_state) = 15"
    by (simp_all add: initial_state_def)
  have b: "\<forall>(speed, color) \<in> set (replicate 7 (255, 1 :: u8)). color \<le> 2"
    by simp
  have c: "(1 :: u8) \<le> 2" by simp
  from scanner_position_and_flips [OF a b] c a show ?thesis by blast
qed

text \<open>
  C4. The ramp tests the byte against 215 and not against 205, so a byte of 206 to
  214 gets 50 added in 8 bits and wraps. It happens from the initial state: with the
  scanner speed register at 252 and the red scanner, the red byte of LED 2 is 220
  after 33 steps; the 34th step decays it to 210 and ramps it to 4, where
  \<open>min (210 + 50) 255\<close> is 255.
\<close>

theorem knightrider_ramp_wraps:
  "map_sum id (\<lambda>s. led_effect_data s ! 7) (knightrider_run initial_state (replicate 33 (252, 1))) = Inr 220
   \<and> map_sum id (\<lambda>s. led_effect_data s ! 7) (knightrider_run initial_state (replicate 34 (252, 1))) = Inr 4
   \<and> ramp_byte (decay_byte 220) = 4"
  by code_simp

section \<open>The register refresh\<close>

lemma length_store_touch: "length (store_touch tv i regs) = length regs"
  by (simp add: store_touch_def Let_def)

lemma length_fold_store_touch: "length (fold (store_touch tv) is regs) = length regs"
  by (induction "is" arbitrary: regs) (simp_all add: length_store_touch)

lemma length_update_registers:
  "length (i2c_registers (update_registers button other tv s)) = length (i2c_registers s)"
  by (simp add: update_registers_def length_fold_store_touch)

lemma button_step_registers: "i2c_registers (button_step b s) = i2c_registers s"
  by (simp add: button_step_def)

lemma length_sense_and_publish:
  "length (i2c_registers (sense_and_publish inp s)) = length (i2c_registers s)"
  by (simp add: sense_and_publish_def Let_def length_update_registers button_step_registers)

lemma store_touch_above:
  "i < 5 \<Longrightarrow> 16 \<le> k \<Longrightarrow> store_touch tv i regs ! k = regs ! k"
  by (simp add: store_touch_def Let_def)

lemma fold_store_touch_above:
  "16 \<le> k \<Longrightarrow> fold (store_touch tv) [0..<5] regs ! k = regs ! k"
  by (simp add: upt_5 store_touch_above)

lemma prev_button_step: "prev_button (button_step b s) = b"
  by (simp add: button_step_def)

lemma button_register_same: "button_register b b = (if b then 3 else 0)"
  by (simp add: button_register_def)

text \<open>
  C7. \<open>prev_button = button\<close> is executed before the registers are refreshed, so
  both bits of the button register are the state sampled in this period: the register
  is 3 when the button is pressed and 0 when it is not, whatever the state of the
  previous period was.
\<close>

theorem button_register_published:
  "length (i2c_registers s) = 35 \<Longrightarrow>
   i2c_registers (sense_and_publish inp s) ! 19 = (if button_pin inp then 0 else 3)"
  by (simp add: sense_and_publish_def Let_def update_registers_def fold_store_touch_above
      prev_button_step button_register_same button_step_registers)

text \<open>
  The button was not pressed in the previous period and is pressed now (the pin is
  low): the register holds 3, bit 0 and bit 1 both set.
\<close>

theorem button_register_published_witness:
  "length (i2c_registers initial_state) = 35 \<and> \<not> prev_button initial_state
   \<and> i2c_registers (sense_and_publish
        \<lparr>raw_touch_value = [0, 0, 0, 0, 0], button_pin = False, other_inputs = 0\<rparr> initial_state) ! 19 = 3"
  using button_register_published
    [of initial_state "\<lparr>raw_touch_value = [0, 0, 0, 0, 0], button_pin = False, other_inputs = 0\<rparr>"]
  by (simp add: initial_state_def)

section \<open>Start-up without a bus\<close>

lemma fallback_frame:
  "fold fallback_led [0..<5] (replicate 15 0) = [0, 255, 0, 0, 255, 0, 0, 255, 0, 0, 255, 0, 0, 255, 0]"
  by code_simp

lemma probe_bus_fallback:
  assumes "\<not> sda_level inp" and "\<not> scl_level inp"
  shows "probe_bus inp initial_state =
    Inr (initial_state\<lparr>led_effect_data := [0, 255, 0, 0, 255, 0, 0, 255, 0, 0, 255, 0, 0, 255, 0]\<rparr>,
         [LedFrame (IrqDisable # concat (map send_byte [0, 255, 0, 0, 255, 0, 0, 255, 0, 0, 255, 0, 0, 255, 0]) @ [IrqEnable]),
          Delay_Ms 100])"
proof -
  have "led_effect_data initial_state = replicate 15 0"
    by (simp add: initial_state_def)
  then have d: "fold fallback_led [0..<5] (led_effect_data initial_state)
      = [0, 255, 0, 0, 255, 0, 0, 255, 0, 0, 255, 0, 0, 255, 0]"
    by (simp only: fallback_frame)
  have "write_addressable_leds [0, 255, 0, 0, 255, 0, 0, 255, 0, 0, 255, 0, 0, 255, 0] 0 15
      = Inr (IrqDisable # concat (map send_byte (take (unat (15::u8)) (drop 0 [0, 255, 0, 0, 255, 0, 0, 255, 0, 0, 255, 0, 0, 255, 0]))) @ [IrqEnable])"
    by (rule write_addressable_leds_in_bounds) simp
  then have w: "write_addressable_leds [0, 255, 0, 0, 255, 0, 0, 255, 0, 0, 255, 0, 0, 255, 0] 0 15
      = Inr (IrqDisable # concat (map send_byte [0, 255, 0, 0, 255, 0, 0, 255, 0, 0, 255, 0, 0, 255, 0]) @ [IrqEnable])"
    by simp
  show ?thesis
    unfolding probe_bus_def Let_def d w using assms by simp
qed

text \<open>
  C6, as amended. If both bus lines read low at start-up, no bus peripheral is
  registered: all that start-up does to the outside is to send one LED frame and to
  wait 100 ms. The frame is the serialization of the fallback buffer, which is red on
  every LED: green 0, red 255, blue 0.
\<close>

theorem boot_fallback_pattern:
  "\<not> sda_level inp \<Longrightarrow> \<not> scl_level inp \<Longrightarrow>
   \<exists>s w. boot inp = Inr (s, [LedFrame w, Delay_Ms 100])
      \<and> write_addressable_leds fallback_colors 0 15 = Inr w
      \<and> led_effect_data s = fallback_colors
      \<and> (\<forall>i<5. fallback_colors ! (3 * i) = 0 \<and> fallback_colors ! (3 * i + 1) = 255
                 \<and> fallback_colors ! (3 * i + 2) = 0)"
proof -
  assume a: "\<not> sda_level inp" "\<not> scl_level inp"
  have w: "write_addressable_leds fallback_colors 0 15
      = Inr (IrqDisable # concat (map send_byte fallback_colors) @ [IrqEnable])"
    using write_addressable_leds_in_bounds [of 0 15 fallback_colors]
    by (simp add: fallback_colors_def)
  have c: "\<forall>i<5. fallback_colors ! (3 * i) = 0 \<and> fallback_colors ! (3 * i + 1) = 255
                 \<and> fallback_colors ! (3 * i + 2) = 0"
    by (simp add: less_5_cases fallback_colors_def)
  from probe_bus_fallback [OF a] have "\<exists>s. boot inp =
      Inr (s, [LedFrame (IrqDisable # concat (map send_byte fallback_colors) @ [IrqEnable]), Delay_Ms 100])
      \<and> led_effect_data s = fallback_colors"
    by (simp add: boot_def Let_def fallback_colors_def)
  with w c show ?thesis by auto
qed

text \<open>Start-up with both lines low and the mode jumper open.\<close>

theorem boot_fallback_pattern_witness:
  "\<exists>s w. boot \<lparr>sda_level = False, scl_level = False, mode_pin = True, baseline_touch = [0, 0, 0, 0, 0]\<rparr>
       = Inr (s, [LedFrame w, Delay_Ms 100])
      \<and> led_effect_data s = fallback_colors"
  using boot_fallback_pattern
    [of "\<lparr>sda_level = False, scl_level = False, mode_pin = True, baseline_touch = [0, 0, 0, 0, 0]\<rparr>"]
  by auto

text \<open>
  The claim as stated has every LED green (green 255, red 0, blue 0). After start-up
  with both lines low the green byte of LED 0 is 0.
\<close>

theorem boot_fallback_green_counterexample:
  "\<not> (\<exists>s evs. boot \<lparr>sda_level = False, scl_level = False, mode_pin = True, baseline_touch = [0, 0, 0, 0, 0]\<rparr>
          = Inr (s, evs)
        \<and> (\<forall>i<5. led_effect_data s ! (3 * i) = 255 \<and> led_effect_data s ! (3 * i + 1) = 0
                   \<and> led_effect_data s ! (3 * i + 2) = 0))"
proof
  assume "\<exists>s evs. boot \<lparr>sda_level = False, scl_level = False, mode_pin = True, baseline_touch = [0, 0, 0, 0, 0]\<rparr>
          = Inr (s, evs)
        \<and> (\<forall>i<5. led_effect_data s ! (3 * i) = 255 \<and> led_effect_data s ! (3 * i + 1) = 0
                   \<and> led_effect_data s ! (3 * i + 2) = 0)"
  then obtain s evs where
    b: "boot \<lparr>sda_level = False, scl_level = False, mode_pin = True, baseline_touch = [0, 0, 0, 0, 0]\<rparr> = Inr (s, evs)"
    and g: "\<forall>i<5. led_effect_data s ! (3 * i) = 255 \<and> led_effect_data s ! (3 * i + 1) = 0
                   \<and> led_effect_data s ! (3 * i + 2) = 0"
    by blast
  from g have "led_effect_data s ! (3 * 0) = 255" by (simp only: less_5_cases) simp
  moreover from b have "led_effect_data s = [0, 255, 0, 0, 255, 0, 0, 255, 0, 0, 255, 0, 0, 255, 0]"
    using probe_bus_fallback
      [of "\<lparr>sda_level = False, scl_level = False, mode_pin = True, baseline_touch = [0, 0, 0, 0, 0]\<rparr>"]
    by (auto simp add: boot_def Let_def)
  ultimately show False by simp
qed

section \<open>The LEDs of mode 0\<close>

lemma send_bytes_append:
  "send_bytes buf base (ps @ qs) =
     (case send_bytes buf base ps of
        Inl e \<Rightarrow> Inl e
      | Inr a \<Rightarrow> (case send_bytes buf base qs of Inl e \<Rightarrow> Inl e | Inr b \<Rightarrow> Inr (a @ b)))"
  by (induction ps) (simp_all split: sum.splits)

lemma send_bytes_past_end:
  assumes "base + n = length buf"
  shows "send_bytes buf base [0..<Suc n] = Inl (OutOfBounds (length buf))"
proof -
  have "\<forall>p \<in> set [0..<n]. base + p < length buf"
    using assms by auto
  then have "send_bytes buf base [0..<n] = Inr (concat (map (\<lambda>p. send_byte (buf ! (base + p))) [0..<n]))"
    by (rule send_bytes_in_bounds)
  moreover have "send_bytes buf base [n] = Inl (OutOfBounds (length buf))"
    using assms by (simp add: read_at_def)
  ultimately show ?thesis
    by (simp add: send_bytes_append)
qed

lemma passthrough_out_of_bounds:
  "length regs = 35 \<Longrightarrow> write_addressable_leds regs 21 15 = Inl (OutOfBounds 35)"
  using send_bytes_past_end [of 21 14 regs]
  by (simp add: write_addressable_leds_def)

text \<open>
  C1. The host's LED colours are the registers 21 to 35, but \<open>i2c_registers\<close> has
  35 entries, 0 to 34: register 35 (blue of LED 4) does not exist. The transmission of
  mode 0 asks for 15 bytes from register 21 on and its 15th read is \<open>i2c_registers[35]\<close>,
  outside the array; only the 14 bytes of the registers 21 to 34 can be sent as the
  host wrote them.
\<close>

theorem passthrough_reads_past_registers:
  "length regs = 35 \<Longrightarrow>
     write_addressable_leds regs 21 15 = Inl (OutOfBounds 35)
     \<and> write_addressable_leds regs 21 14 =
         Inr (IrqDisable # concat (map send_byte (take 14 (drop 21 regs))) @ [IrqEnable])"
  using write_addressable_leds_in_bounds [of 21 14 regs]
  by (simp add: passthrough_out_of_bounds)

text \<open>A register file that holds 7 everywhere.\<close>

theorem passthrough_reads_past_registers_witness:
  "length (replicate 35 (7::u8)) = 35
   \<and> write_addressable_leds (replicate 35 7) 21 15 = Inl (OutOfBounds 35)"
  using passthrough_reads_past_registers [of "replicate 35 7"]
  by simp

lemma system_mode_sense_and_publish:
  "system_mode (sense_and_publish inp s) = system_mode (button_step (\<not> button_pin inp) s)"
  by (simp add: sense_and_publish_def Let_def update_registers_def button_step_def)

text \<open>
  C10. In every period in which the mode is 0 at the switch, the main loop reads
  \<open>i2c_registers[35]\<close>, and 35 is not an index of the 35-entry array.
\<close>

theorem mode_0_tick_out_of_bounds:
  "length (i2c_registers s) = 35 \<Longrightarrow> system_mode (sense_and_publish inp s) = 0 \<Longrightarrow>
   tick ehsv inp s = Inl (OutOfBounds 35) \<and> \<not> 35 < length (i2c_registers s)"
  by (simp add: tick_def Let_def render_mode_def passthrough_out_of_bounds length_sense_and_publish)

text \<open>The first period after the initial state, the button not pressed.\<close>

theorem mode_0_tick_out_of_bounds_witness:
  "length (i2c_registers initial_state) = 35
   \<and> system_mode (sense_and_publish
        \<lparr>raw_touch_value = [0, 0, 0, 0, 0], button_pin = True, other_inputs = 0\<rparr> initial_state) = 0
   \<and> tick (\<lambda>h s v. 0) \<lparr>raw_touch_value = [0, 0, 0, 0, 0], button_pin = True, other_inputs = 0\<rparr> initial_state
       = Inl (OutOfBounds 35)"
proof -
  have a: "length (i2c_registers initial_state) = 35"
    by (simp add: initial_state_def)
  have b: "system_mode (sense_and_publish
        \<lparr>raw_touch_value = [0, 0, 0, 0, 0], button_pin = True, other_inputs = 0\<rparr> initial_state) = 0"
    by (simp add: system_mode_sense_and_publish button_step_def initial_state_def)
  from mode_0_tick_out_of_bounds [OF a b] a b show ?thesis by simp
qed

section \<open>The refresh under interleaving\<close>

lemma exec_store:
  "is_store op \<Longrightarrow> stores_done (exec_op op m) = Suc (stores_done m)
     \<and> event_enabled (exec_op op m) = event_enabled m
     \<and> todo (exec_op op m) = todo m
     \<and> handler_saw (exec_op op m) = handler_saw m"
  by (cases op) (simp_all add: is_store_def)

lemma main_step_inv:
  assumes "\<forall>op \<in> set S. is_store op" and "refresh_inv S m"
  shows "refresh_inv S (sched_step MainStep m)"
proof -
  consider
    (start) "todo m = DisableEvent # S @ [EnableEvent]" "event_enabled m" "stores_done m = 0"
  | (store) "stores_done m < length S" "todo m = drop (stores_done m) S @ [EnableEvent]" "\<not> event_enabled m"
  | (last) "stores_done m = length S" "todo m = [EnableEvent]" "\<not> event_enabled m"
  | (finished) "todo m = []" "event_enabled m" "stores_done m = length S"
    using assms(2) by (auto simp add: refresh_inv_def le_less)
  then show ?thesis
  proof cases
    case start
    with assms(2) show ?thesis by (simp add: refresh_inv_def)
  next
    case store
    let ?k = "stores_done m"
    have d: "drop ?k S = S ! ?k # drop (Suc ?k) S"
      using store(1) by (simp add: Cons_nth_drop_Suc)
    have "is_store (S ! ?k)" using assms(1) store(1) by simp
    from exec_store [OF this, of "m\<lparr>todo := drop (Suc ?k) S @ [EnableEvent]\<rparr>"] store d assms(2)
    show ?thesis by (simp add: refresh_inv_def Suc_le_eq)
  next
    case last
    with assms(2) show ?thesis by (simp add: refresh_inv_def)
  next
    case finished
    with assms(2) show ?thesis by (simp add: refresh_inv_def)
  qed
qed

lemma handler_step_inv:
  assumes "refresh_inv S m"
  shows "refresh_inv S (handler_step i w m)"
  using assms by (auto simp add: refresh_inv_def handler_step_def)

lemma sched_step_inv:
  "\<forall>op \<in> set S. is_store op \<Longrightarrow> refresh_inv S m \<Longrightarrow> refresh_inv S (sched_step x m)"
  by (cases x) (simp_all add: main_step_inv handler_step_inv del: sched_step.simps(1))

lemma run_sched_inv:
  "\<forall>op \<in> set S. is_store op \<Longrightarrow> refresh_inv S m \<Longrightarrow> refresh_inv S (run_sched sc m)"
  unfolding run_sched_def
  by (induction sc arbitrary: m) (simp_all add: sched_step_inv del: sched_step.simps)

lemma refresh_stores_are_stores: "\<forall>op \<in> set (refresh_stores button other tv s). is_store op"
  by (simp add: refresh_stores_def touch_stores_def is_store_def upt_5 Let_def)

lemma length_refresh_stores: "length (refresh_stores button other tv s) = 18"
  by (simp add: refresh_stores_def touch_stores_def upt_5 Let_def)

lemma refresh_start_inv:
  "refresh_inv (refresh_stores button other tv s) (refresh_start button other tv s)"
  by (simp add: refresh_inv_def refresh_start_def refresh_ops_def)

lemma refresh_sequential:
  "registers (run_sched (replicate 20 MainStep) (refresh_start button other tv s))
     = i2c_registers (update_registers button other tv s)"
  by (simp add: run_sched_def refresh_start_def refresh_ops_def refresh_stores_def touch_stores_def
      upt_5 eval_nat_numeral update_registers_def store_touch_def Let_def)

text \<open>
  C9. The refresh has 18 byte stores, among them the two bytes of the firmware
  version and the two bytes of each of the five touch deltas, and executed in order
  they give what \<open>update_registers\<close> computes. In every interleaving of bus events
  with the operations of the refresh, every run of the handler finds either none or
  all 18 of the stores done, because the stores stand between the two writes of the
  interrupt enable bit.
\<close>

theorem refresh_indivisible_for_handler:
  "(\<forall>n \<in> set (handler_saw (run_sched sc (refresh_start button other tv s))). n = 0 \<or> n = 18)
   \<and> length (refresh_stores button other tv s) = 18
   \<and> registers (run_sched (replicate 20 MainStep) (refresh_start button other tv s))
       = i2c_registers (update_registers button other tv s)"
proof -
  have "refresh_inv (refresh_stores button other tv s) (run_sched sc (refresh_start button other tv s))"
    using refresh_stores_are_stores refresh_start_inv by (rule run_sched_inv)
  then have "\<forall>n \<in> set (handler_saw (run_sched sc (refresh_start button other tv s))). n = 0 \<or> n = 18"
    by (simp add: refresh_inv_def length_refresh_stores)
  then show ?thesis
    by (simp add: length_refresh_stores refresh_sequential)
qed

text \<open>
  A schedule with a bus event before the refresh, two inside it (not served) and one
  after it.
\<close>

theorem refresh_indivisible_for_handler_witness:
  "handler_saw (run_sched
      ([BusEvent 6 None, MainStep, MainStep, BusEvent 6 None, BusEvent 7 (Some 1)]
        @ replicate 18 MainStep @ [BusEvent 7 None])
      (refresh_start True 0 [300, 0, 0, 0, 0] initial_state)) = [0, 18]
   \<and> length (refresh_stores True 0 [300, 0, 0, 0, 0] initial_state) = 18"
proof -
  have "handler_saw (run_sched
      ([BusEvent 6 None, MainStep, MainStep, BusEvent 6 None, BusEvent 7 (Some 1)]
        @ replicate 18 MainStep @ [BusEvent 7 None])
      (refresh_start True 0 [300, 0, 0, 0, 0] initial_state)) = [0, 18]"
    by code_simp
  with refresh_indivisible_for_handler
    [of "[BusEvent 6 None, MainStep, MainStep, BusEvent 6 None, BusEvent 7 (Some 1)]
        @ replicate 18 MainStep @ [BusEvent 7 None]" True 0 "[300, 0, 0, 0, 0]" initial_state]
  show ?thesis by simp
qed

end
